theory Spec2Isabelle
  imports Main "HOL-Library.Word"
begin

unbundle bit_operations_syntax

section \<open>The JSON message codec of the Linux shell (fl\_json\_message\_codec.cc)\<close>

text \<open>
  The codec converts between the value model (FlValue) and JSON text. The writer appends
  bytes to a byte array; the reader walks a byte buffer with an offset.

  Bytes and C characters are 8-bit words. A C string is the list of its bytes, the
  terminating NUL left implicit: \<open>c_str\<close> cuts a byte list at its first NUL, which is
  what \<open>strlen\<close>, \<open>g_strdup\<close> and every loop that runs to the terminator see.
\<close>

type_synonym byte = "8 word"
type_synonym int64 = "64 word"
type_synonym gunichar = "32 word"

definition c_str :: "byte list \<Rightarrow> byte list" where
  "c_str s = takeWhile (\<lambda>b. b \<noteq> 0) s"

text \<open>The bytes of a string literal of the source.\<close>

definition lit :: "string \<Rightarrow> byte list" where
  "lit s = map (\<lambda>c. of_nat (of_char c)) s"

subsection \<open>What the codec takes from the C library and the compiler\<close>

text \<open>
  The type of doubles and the operations on them are parameters: \<open>isfinite\<close> and GLib's
  \<open>g_ascii_dtostr\<close> for the writer, the conversion from a 64-bit integer, \<open>+\<close>, \<open>*\<close>,
  \<open>/\<close> and \<open>pow\<close> for the reader. Whether plain \<open>char\<close> is signed is fixed by the ABI
  (signed on x86, unsigned on ARM); it decides the comparisons \<open>c < 0x20\<close> and the
  conversion of a \<open>char\<close> to \<open>gunichar\<close>.
\<close>

record 'f platform =
  char_signed :: bool
  isfinite :: "'f \<Rightarrow> bool"
  g_ascii_dtostr :: "'f \<Rightarrow> byte list"
  double_of_int64 :: "int64 \<Rightarrow> 'f"
  dadd :: "'f \<Rightarrow> 'f \<Rightarrow> 'f"
  dmul :: "'f \<Rightarrow> 'f \<Rightarrow> 'f"
  ddiv :: "'f \<Rightarrow> 'f \<Rightarrow> 'f"
  pow :: "'f \<Rightarrow> 'f \<Rightarrow> 'f"

text \<open>The value of a \<open>char\<close> in a comparison with an \<open>int\<close> (integer promotion).\<close>

definition char_to_int :: "'f platform \<Rightarrow> byte \<Rightarrow> int" where
  "char_to_int P c = (if char_signed P then sint c else uint c)"

text \<open>The conversion of a \<open>char\<close> argument to \<open>gunichar\<close> (an unsigned 32-bit integer).\<close>

definition char_to_gunichar :: "'f platform \<Rightarrow> byte \<Rightarrow> gunichar" where
  "char_to_gunichar P c = (if char_signed P then scast c else ucast c)"

subsection \<open>The value model\<close>

text \<open>
  Modelled from the spec: FlValue (fl\_value.cc is not among the sources) is a tagged
  union of null, bool, 64-bit integer, double, string, the four typed numeric lists, a
  list of values and a map, which is an ordered sequence of key and value pairs.
\<close>

datatype 'f fl_value =
    FL_NULL
  | FL_BOOL bool
  | FL_INT int64
  | FL_FLOAT 'f
  | FL_STRING "byte list"
  | FL_UINT8_LIST "8 word list"
  | FL_INT32_LIST "32 word list"
  | FL_INT64_LIST "64 word list"
  | FL_FLOAT_LIST "'f list"
  | FL_LIST "'f fl_value list"
  | FL_MAP "('f fl_value \<times> 'f fl_value) list"

text \<open>
  The error codes of FL\_MESSAGE\_CODEC\_ERROR (FAILED, OUT\_OF\_DATA, ADDITIONAL\_DATA)
  and of FL\_JSON\_MESSAGE\_CODEC\_ERROR (the others). ADDITIONAL\_DATA carries the
  number of unused bytes and MISSING\_COMMA the byte found, which the source puts into
  the message of the error. G\_ASSERT\_FAILED is not an error code: it stands for the
  abort of a failed \<open>g_assert\<close>.
\<close>

datatype error =
    FAILED
  | OUT_OF_DATA
  | ADDITIONAL_DATA nat
  | INVALID_NUMBER
  | INVALID_STRING_CHARACTER
  | INVALID_STRING_ESCAPE_SEQUENCE
  | INVALID_STRING_UNICODE_ESCAPE
  | INVALID_OBJECT_KEY_TYPE
  | MISSING_COMMA byte
  | G_ASSERT_FAILED

subsection \<open>Characters and digits\<close>

definition is_json_whitespace :: "byte \<Rightarrow> bool" where
  "is_json_whitespace v \<longleftrightarrow> v = 0x20 \<or> v = 0x0A \<or> v = 0x0D \<or> v = 0x09"

text \<open>\<open>'0' + value\<close>, computed in \<open>int\<close> and converted to \<open>char\<close>.\<close>

definition json_int_to_digit :: "int \<Rightarrow> byte" where
  "json_int_to_digit v = word_of_int (0x30 + v)"

text \<open>\<open>value < 10 ? '0' + value : 'a' + value\<close>.\<close>

definition json_int_to_xdigit :: "int \<Rightarrow> byte" where
  "json_int_to_xdigit v = (if v < 10 then word_of_int (0x30 + v) else word_of_int (0x61 + v))"

text \<open>
  The bounds \<open>'0'\<close>, \<open>'9'\<close>, \<open>'a'\<close>, \<open>'f'\<close>, \<open>'A'\<close>, \<open>'F'\<close> are all below 0x80, so the
  comparisons come out the same for a signed and an unsigned \<open>char\<close>; they are written
  on the unsigned byte.
\<close>

definition json_digit_to_int :: "byte \<Rightarrow> int" where
  "json_digit_to_int v = (if v \<ge> 0x30 \<and> v \<le> 0x39 then uint v - 0x30 else -1)"

definition json_xdigit_to_int :: "byte \<Rightarrow> int" where
  "json_xdigit_to_int v =
     (if v \<ge> 0x30 \<and> v \<le> 0x39 then uint v - 0x30
      else if v \<ge> 0x61 \<and> v \<le> 0x66 then uint v - 0x61 + 10
      else if v \<ge> 0x41 \<and> v \<le> 0x46 then uint v - 0x41 + 10
      else -1)"

subsection \<open>The writer\<close>

definition write_char :: "byte list \<Rightarrow> byte \<Rightarrow> byte list" where
  "write_char buffer v = buffer @ [v]"

text \<open>\<open>write_string\<close> appends \<open>strlen(value)\<close> bytes.\<close>

definition write_string :: "byte list \<Rightarrow> byte list \<Rightarrow> byte list" where
  "write_string buffer v = buffer @ c_str v"

definition G_MININT64 :: int where
  "G_MININT64 = - (2 ^ 63)"

text \<open>
  \<open>write_int\<close> works on the signed value of its 64-bit argument. After the special case
  of G\_MININT64 the negation cannot overflow, and the divisor stays at or below
  \<open>10 ^ 18\<close> (lemma \<open>write_int_divisor_bound\<close>), so no operation of the function
  wraps around and the arithmetic is that of the integers; the operands of \<open>/\<close> are never
  negative, where C's division is \<open>div\<close>.

  The first loop: \<open>while (value / divisor > 9) divisor *= 10\<close>.
\<close>

function write_int_divisor :: "int \<Rightarrow> int \<Rightarrow> int" where
  "write_int_divisor v divisor =
     (if v div divisor > 9 then write_int_divisor v (divisor * 10) else divisor)"
  by pat_completeness auto
termination
proof (relation "measure (\<lambda>(v, divisor). nat (v div divisor))")
  fix v divisor :: int
  assume "9 < v div divisor"
  moreover have "v div (divisor * 10) = v div divisor div 10"
    by (simp add: zdiv_zmult2_eq)
  ultimately show "((v, divisor * 10), (v, divisor)) \<in> measure (\<lambda>(v, divisor). nat (v div divisor))"
    by simp
qed simp

declare write_int_divisor.simps [simp del]

text \<open>
  The second loop writes one digit for each power of ten down to 1. It ends when the
  divisor is 1; the first loop only produces powers of ten, and the model stops on a
  divisor below 1, which the source never has there.
\<close>

function write_int_digits :: "byte list \<Rightarrow> int \<Rightarrow> int \<Rightarrow> byte list" where
  "write_int_digits buffer v divisor =
     (let d = v div divisor;
          buffer = write_char buffer (json_int_to_digit d)
      in if divisor = 1 then buffer
         else if divisor < 1 then buffer
         else write_int_digits buffer (v - d * divisor) (divisor div 10))"
  by pat_completeness auto
termination
  by (relation "measure (\<lambda>(buffer, v, divisor). nat divisor)") auto

declare write_int_digits.simps [simp del]

definition write_int :: "byte list \<Rightarrow> int64 \<Rightarrow> byte list" where
  "write_int buffer w =
     (let v = sint w in
      if v = G_MININT64 then write_string buffer (lit ''-9223372036854775808'')
      else
        let buffer = (if v < 0 then write_char buffer 0x2D else buffer);
            v = (if v < 0 then - v else v);
            divisor = write_int_divisor v 1
        in write_int_digits buffer v divisor)"

text \<open>
  \<open>write_double\<close>: \<open>g_ascii_dtostr\<close> fills a NUL-terminated buffer, \<open>strchr\<close> looks for
  the decimal point in it.
\<close>

definition write_double :: "'f platform \<Rightarrow> byte list \<Rightarrow> 'f \<Rightarrow> error + byte list" where
  "write_double P buffer v =
     (if \<not> isfinite P v then Inl INVALID_NUMBER
      else
        let text = g_ascii_dtostr P v;
            buffer = write_string buffer text;
            buffer = (if 0x2E \<notin> set (c_str text) then write_string buffer (lit ''.0'') else buffer)
        in Inr buffer)"

definition write_unicode_escape :: "byte list \<Rightarrow> gunichar \<Rightarrow> byte list" where
  "write_unicode_escape buffer c =
     (let buffer = write_string buffer [0x5C, 0x75];
          buffer = write_char buffer (json_int_to_xdigit (uint (drop_bit 24 c AND 0xF)));
          buffer = write_char buffer (json_int_to_xdigit (uint (drop_bit 16 c AND 0xF)));
          buffer = write_char buffer (json_int_to_xdigit (uint (drop_bit 8 c AND 0xF)));
          buffer = write_char buffer (json_int_to_xdigit (uint (drop_bit 0 c AND 0xF)))
      in buffer)"

text \<open>
  The loop over the characters of a string value, up to its terminating NUL (here also
  the end of the list). The bytes are written in hexadecimal: 0x22 is the double quote,
  0x5C the backslash, 0x08 backspace, 0x0C form feed, 0x0A newline, 0x0D carriage return,
  0x09 tab; the two-byte escapes are the backslash and one of \<open>" \ b f n r t\<close>
  (0x22, 0x5C, 0x62, 0x66, 0x6E, 0x72, 0x74), and 0x75 is \<open>u\<close>.
\<close>

fun write_string_chars :: "'f platform \<Rightarrow> byte list \<Rightarrow> byte list \<Rightarrow> byte list" where
  "write_string_chars P buffer [] = buffer"
| "write_string_chars P buffer (c # cs) =
     (if c = 0 then buffer
      else write_string_chars P
        (if c = 0x22 then write_string buffer [0x5C, 0x22]
         else if c = 0x5C then write_string buffer [0x5C, 0x5C]
         else if c = 0x08 then write_string buffer [0x5C, 0x62]
         else if c = 0x0C then write_string buffer [0x5C, 0x66]
         else if c = 0x0A then write_string buffer [0x5C, 0x6E]
         else if c = 0x0D then write_string buffer [0x5C, 0x72]
         else if c = 0x09 then write_string buffer [0x5C, 0x74]
         else if char_to_int P c < 0x20 then write_unicode_escape buffer (char_to_gunichar P c)
         else write_char buffer c)
        cs)"

text \<open>
  The loops over the elements of the typed lists; \<open>i\<close> is the index of the head of the
  list that is left. The elements are converted to \<open>int64_t\<close> for \<open>write_int\<close>: an
  \<open>uint8_t\<close> is zero-extended, an \<open>int32_t\<close> sign-extended.
\<close>

fun write_int_elements :: "byte list \<Rightarrow> nat \<Rightarrow> int64 list \<Rightarrow> byte list" where
  "write_int_elements buffer i [] = buffer"
| "write_int_elements buffer i (v # vs) =
     (let buffer = (if i \<noteq> 0 then write_char buffer 0x2C else buffer);
          buffer = write_int buffer v
      in write_int_elements buffer (i + 1) vs)"

fun write_float_elements :: "'f platform \<Rightarrow> byte list \<Rightarrow> nat \<Rightarrow> 'f list \<Rightarrow> error + byte list" where
  "write_float_elements P buffer i [] = Inr buffer"
| "write_float_elements P buffer i (v # vs) =
     (let buffer = (if i \<noteq> 0 then write_char buffer 0x2C else buffer)
      in case write_double P buffer v of
           Inl e \<Rightarrow> Inl e
         | Inr buffer \<Rightarrow> write_float_elements P buffer (i + 1) vs)"

text \<open>
  \<open>write_value\<close>. The argument is a pointer that may be null (\<open>None\<close>); the children of
  lists and maps are never null. \<open>write_list_elements\<close> and \<open>write_map_elements\<close> are
  the loops of the FL\_VALUE\_TYPE\_LIST and FL\_VALUE\_TYPE\_MAP cases.
\<close>

function write_value :: "'f platform \<Rightarrow> byte list \<Rightarrow> 'f fl_value option \<Rightarrow> error + byte list"
  and write_list_elements :: "'f platform \<Rightarrow> byte list \<Rightarrow> nat \<Rightarrow> 'f fl_value list \<Rightarrow> error + byte list"
  and write_map_elements :: "'f platform \<Rightarrow> byte list \<Rightarrow> nat \<Rightarrow> ('f fl_value \<times> 'f fl_value) list \<Rightarrow> error + byte list"
where
  "write_value P buffer None = Inr (write_string buffer (lit ''null''))"
| "write_value P buffer (Some FL_NULL) = Inr (write_string buffer (lit ''null''))"
| "write_value P buffer (Some (FL_BOOL b)) =
     (if b then Inr (write_string buffer (lit ''true''))
      else Inr (write_string buffer (lit ''false'')))"
| "write_value P buffer (Some (FL_INT v)) = Inr (write_int buffer v)"
| "write_value P buffer (Some (FL_FLOAT v)) = write_double P buffer v"
| "write_value P buffer (Some (FL_STRING s)) =
     (let buffer = write_char buffer 0x22;
          buffer = write_string_chars P buffer s
      in Inr (write_char buffer 0x22))"
| "write_value P buffer (Some (FL_UINT8_LIST vs)) =
     (let buffer = write_char buffer 0x5B;
          buffer = write_int_elements buffer 0 (map ucast vs)
      in Inr (write_char buffer 0x5D))"
| "write_value P buffer (Some (FL_INT32_LIST vs)) =
     (let buffer = write_char buffer 0x5B;
          buffer = write_int_elements buffer 0 (map scast vs)
      in Inr (write_char buffer 0x5D))"
| "write_value P buffer (Some (FL_INT64_LIST vs)) =
     (let buffer = write_char buffer 0x5B;
          buffer = write_int_elements buffer 0 vs
      in Inr (write_char buffer 0x5D))"
| "write_value P buffer (Some (FL_FLOAT_LIST vs)) =
     (let buffer = write_char buffer 0x5B
      in case write_float_elements P buffer 0 vs of
           Inl e \<Rightarrow> Inl e
         | Inr buffer \<Rightarrow> Inr (write_char buffer 0x5D))"
| "write_value P buffer (Some (FL_LIST vs)) =
     (let buffer = write_char buffer 0x5B
      in case write_list_elements P buffer 0 vs of
           Inl e \<Rightarrow> Inl e
         | Inr buffer \<Rightarrow> Inr (write_char buffer 0x5D))"
| "write_value P buffer (Some (FL_MAP kvs)) =
     (let buffer = write_char buffer 0x7B
      in case write_map_elements P buffer 0 kvs of
           Inl e \<Rightarrow> Inl e
         | Inr buffer \<Rightarrow> Inr (write_char buffer 0x7D))"
| "write_list_elements P buffer i [] = Inr buffer"
| "write_list_elements P buffer i (v # vs) =
     (let buffer = (if i \<noteq> 0 then write_char buffer 0x2C else buffer)
      in case write_value P buffer (Some v) of
           Inl e \<Rightarrow> Inl e
         | Inr buffer \<Rightarrow> write_list_elements P buffer (i + 1) vs)"
| "write_map_elements P buffer i [] = Inr buffer"
| "write_map_elements P buffer i (kv # kvs) =
     (let buffer = (if i \<noteq> 0 then write_char buffer 0x2C else buffer)
      in case write_value P buffer (Some (fst kv)) of
           Inl e \<Rightarrow> Inl e
         | Inr buffer \<Rightarrow>
             (let buffer = write_char buffer 0x3A
              in case write_value P buffer (Some (snd kv)) of
                   Inl e \<Rightarrow> Inl e
                 | Inr buffer \<Rightarrow> write_map_elements P buffer (i + 1) kvs))"
  by pat_completeness auto
termination
  by (relation "measure (\<lambda>x. case x of
          Inl (P, buffer, v) \<Rightarrow> (case v of None \<Rightarrow> 0 | Some a \<Rightarrow> size a)
        | Inr (Inl (P, buffer, i, vs)) \<Rightarrow> size_list size vs
        | Inr (Inr (P, buffer, i, kvs)) \<Rightarrow> size_list (\<lambda>kv. Suc (size (fst kv) + size (snd kv))) kvs)")
     (auto simp: size_prod_simp)

text \<open>
  The two entry points: \<open>encode_message\<close> returns the bytes; \<open>encode\<close> appends a NUL
  and returns the buffer as a C string.
\<close>

definition fl_json_message_codec_encode_message ::
  "'f platform \<Rightarrow> 'f fl_value option \<Rightarrow> error + byte list" where
  "fl_json_message_codec_encode_message P message = write_value P [] message"

definition fl_json_message_codec_encode ::
  "'f platform \<Rightarrow> 'f fl_value option \<Rightarrow> error + byte list" where
  "fl_json_message_codec_encode P v =
     (case write_value P [] v of
        Inl e \<Rightarrow> Inl e
      | Inr buffer \<Rightarrow> Inr (c_str (buffer @ [0])))"

subsection \<open>The cursor of the reader\<close>

text \<open>
  The reader holds the buffer and an offset into it. Past the end \<open>current_char\<close>
  returns NUL. In the reader, 0x22 is the double quote, 0x5C the backslash, 0x2C the
  comma, 0x3A the colon, 0x5B and 0x5D the brackets, 0x7B and 0x7D the braces, 0x2D the
  minus, 0x2B the plus, 0x2E the point, 0x30 the digit 0, 0x45 and 0x65 the letters
  \<open>E\<close> and \<open>e\<close>, 0x2F the slash.
\<close>

definition current_char :: "byte list \<Rightarrow> nat \<Rightarrow> byte" where
  "current_char buffer offset = (if offset \<ge> length buffer then 0 else buffer ! offset)"

definition next_char :: "nat \<Rightarrow> nat" where
  "next_char offset = offset + 1"

lemma current_char_nonzero: "current_char buffer offset \<noteq> 0 \<Longrightarrow> offset < length buffer"
  by (simp add: current_char_def split: if_splits)

lemma is_json_whitespace_nonzero: "is_json_whitespace c \<Longrightarrow> c \<noteq> 0"
  by (auto simp: is_json_whitespace_def)

function read_whitespace :: "byte list \<Rightarrow> nat \<Rightarrow> nat" where
  "read_whitespace buffer offset =
     (if is_json_whitespace (current_char buffer offset)
      then read_whitespace buffer (next_char offset) else offset)"
  by pat_completeness auto
termination
  by (relation "measure (\<lambda>(buffer, offset). length buffer - offset)")
     (auto simp: next_char_def dest!: is_json_whitespace_nonzero current_char_nonzero)

declare read_whitespace.simps [simp del]

subsection \<open>Words, commas and strings\<close>

text \<open>The word is one of the literals \<open>true\<close>, \<open>false\<close>, \<open>null\<close>.\<close>

fun read_word :: "byte list \<Rightarrow> nat \<Rightarrow> byte list \<Rightarrow> error + nat" where
  "read_word buffer offset [] = Inr offset"
| "read_word buffer offset (w # ws) =
     (if current_char buffer offset \<noteq> w then Inl FAILED
      else read_word buffer (next_char offset) ws)"

definition read_json_true :: "byte list \<Rightarrow> nat \<Rightarrow> error + ('f fl_value \<times> nat)" where
  "read_json_true buffer offset =
     (case read_word buffer offset (lit ''true'') of
        Inl e \<Rightarrow> Inl e
      | Inr offset \<Rightarrow> Inr (FL_BOOL True, offset))"

definition read_json_false :: "byte list \<Rightarrow> nat \<Rightarrow> error + ('f fl_value \<times> nat)" where
  "read_json_false buffer offset =
     (case read_word buffer offset (lit ''false'') of
        Inl e \<Rightarrow> Inl e
      | Inr offset \<Rightarrow> Inr (FL_BOOL False, offset))"

definition read_json_null :: "byte list \<Rightarrow> nat \<Rightarrow> error + ('f fl_value \<times> nat)" where
  "read_json_null buffer offset =
     (case read_word buffer offset (lit ''null'') of
        Inl e \<Rightarrow> Inl e
      | Inr offset \<Rightarrow> Inr (FL_NULL, offset))"

definition read_comma :: "byte list \<Rightarrow> nat \<Rightarrow> error + nat" where
  "read_comma buffer offset =
     (let c = current_char buffer offset
      in if c \<noteq> 0x2C then Inl (MISSING_COMMA c) else Inr (next_char offset))"

text \<open>The loop of \<open>read_json_unichar_code\<close>, from \<open>i\<close> to 4.\<close>

function read_json_unichar_code_loop ::
  "byte list \<Rightarrow> nat \<Rightarrow> nat \<Rightarrow> gunichar \<Rightarrow> error + (gunichar \<times> nat)" where
  "read_json_unichar_code_loop buffer offset i wc =
     (if i < 4 then
        (let c = current_char buffer offset;
             xdigit = json_xdigit_to_int c
         in if xdigit < 0 then Inl INVALID_STRING_UNICODE_ESCAPE
            else read_json_unichar_code_loop buffer (next_char offset) (i + 1)
                   (push_bit 4 wc + word_of_int xdigit))
      else Inr (wc, offset))"
  by pat_completeness auto
termination
  by (relation "measure (\<lambda>(buffer, offset, i, wc). 4 - i)") auto

declare read_json_unichar_code_loop.simps [simp del]

definition read_json_unichar_code :: "byte list \<Rightarrow> nat \<Rightarrow> error + (gunichar \<times> nat)" where
  "read_json_unichar_code buffer offset = read_json_unichar_code_loop buffer offset 0 0"

definition read_json_string_escape :: "byte list \<Rightarrow> nat \<Rightarrow> error + (gunichar \<times> nat)" where
  "read_json_string_escape buffer offset =
     (let c = current_char buffer offset
      in if c = 0x75 then read_json_unichar_code buffer (next_char offset)
         else if c = 0x22 then Inr (0x22, next_char offset)
         else if c = 0x5C then Inr (0x5C, next_char offset)
         else if c = 0x2F then Inr (0x2F, next_char offset)
         else if c = 0x62 then Inr (0x08, next_char offset)
         else if c = 0x66 then Inr (0x0C, next_char offset)
         else if c = 0x6E then Inr (0x0A, next_char offset)
         else if c = 0x72 then Inr (0x0D, next_char offset)
         else if c = 0x74 then Inr (0x09, next_char offset)
         else Inl INVALID_STRING_ESCAPE_SEQUENCE)"

text \<open>
  GLib's \<open>g_string_append_unichar\<close> appends the UTF-8 encoding of the character, as
  \<open>g_unichar_to_utf8\<close> computes it; an escape gives a character below 0x10000, of one
  to three bytes. \<open>g_string_append_c\<close> appends one byte.
\<close>

definition g_string_append_unichar :: "byte list \<Rightarrow> gunichar \<Rightarrow> byte list" where
  "g_string_append_unichar text wc =
     (if wc < 0x80 then text @ [ucast wc]
      else if wc < 0x800 then
        text @ [ucast (drop_bit 6 wc) OR 0xC0, ucast (wc AND 0x3F) OR 0x80]
      else if wc < 0x10000 then
        text @ [ucast (drop_bit 12 wc) OR 0xE0, ucast (drop_bit 6 wc AND 0x3F) OR 0x80,
                ucast (wc AND 0x3F) OR 0x80]
      else
        text @ [ucast (drop_bit 18 wc) OR 0xF0, ucast (drop_bit 12 wc AND 0x3F) OR 0x80,
                ucast (drop_bit 6 wc AND 0x3F) OR 0x80, ucast (wc AND 0x3F) OR 0x80])"

definition g_string_append_c :: "byte list \<Rightarrow> byte \<Rightarrow> byte list" where
  "g_string_append_c text c = text @ [c]"

lemma read_json_unichar_code_loop_mono:
  "read_json_unichar_code_loop buffer offset i wc = Inr (wc', offset') \<Longrightarrow> offset \<le> offset'"
proof (induction buffer offset i wc rule: read_json_unichar_code_loop.induct)
  case (1 buffer offset i wc)
  show ?case
  proof (cases "i < 4 \<and> \<not> json_xdigit_to_int (current_char buffer offset) < 0")
    case True
    with "1.prems" have "read_json_unichar_code_loop buffer (next_char offset) (i + 1)
        (push_bit 4 wc + word_of_int (json_xdigit_to_int (current_char buffer offset)))
        = Inr (wc', offset')"
      by (subst (asm) read_json_unichar_code_loop.simps) (simp add: Let_def)
    with "1.IH" True have "next_char offset \<le> offset'" by simp
    then show ?thesis by (simp add: next_char_def)
  next
    case False
    with "1.prems" show ?thesis
      by (subst (asm) read_json_unichar_code_loop.simps) (auto simp: Let_def split: if_splits)
  qed
qed

lemma read_json_string_escape_mono:
  "read_json_string_escape buffer offset = Inr (wc, offset') \<Longrightarrow> offset < offset'"
  by (auto simp: read_json_string_escape_def read_json_unichar_code_def next_char_def Let_def
           split: if_splits dest: read_json_unichar_code_loop_mono)

text \<open>
  \<open>fl_value_new_string\<close> copies a C string: the text up to its first NUL.

  The loop of \<open>read_json_string\<close>, with the text read so far. A byte is below 0x20 as a
  \<open>char\<close>, which on a platform with signed characters includes every byte from 0x80.
\<close>

function read_json_string_loop ::
  "'f platform \<Rightarrow> byte list \<Rightarrow> nat \<Rightarrow> byte list \<Rightarrow> error + ('f fl_value \<times> nat)" where
  "read_json_string_loop P buffer offset text =
     (let c = current_char buffer offset
      in if c = 0x22 then Inr (FL_STRING (c_str text), next_char offset)
         else if c = 0x5C then
           (case read_json_string_escape buffer (next_char offset) of
              Inl e \<Rightarrow> Inl e
            | Inr (wc, offset') \<Rightarrow>
                read_json_string_loop P buffer offset' (g_string_append_unichar text wc))
         else if c = 0 then Inl OUT_OF_DATA
         else if char_to_int P c < 0x20 then Inl INVALID_STRING_CHARACTER
         else read_json_string_loop P buffer (next_char offset) (g_string_append_c text c))"
  by pat_completeness auto
termination
proof (relation "measure (\<lambda>(P, buffer, offset, text). length buffer - offset)")
  fix P :: "'f platform" and buffer :: "byte list" and offset :: nat and s :: "byte list"
    and c x wc offset'
  assume c: "c = current_char buffer offset" "c = 0x5C"
    and r: "read_json_string_escape buffer (next_char offset) = Inr x" "(wc, offset') = x"
  from c have "offset < length buffer"
    by (auto intro: current_char_nonzero)
  moreover from r have "next_char offset < offset'"
    by (auto dest: read_json_string_escape_mono)
  ultimately show "((P, buffer, offset', g_string_append_unichar s wc), (P, buffer, offset, s))
      \<in> measure (\<lambda>(P, buffer, offset, text). length buffer - offset)"
    by (simp add: next_char_def)
next
  fix P :: "'f platform" and buffer :: "byte list" and offset :: nat and s :: "byte list" and c
  assume "c = current_char buffer offset" "c \<noteq> 0"
  then have "offset < length buffer"
    by (auto intro: current_char_nonzero)
  then show "((P, buffer, next_char offset, g_string_append_c s c), (P, buffer, offset, s))
      \<in> measure (\<lambda>(P, buffer, offset, text). length buffer - offset)"
    by (simp add: next_char_def)
qed simp

declare read_json_string_loop.simps [simp del]

text \<open>
  \<open>g_assert\<close> aborts the process when its condition fails; the model returns
  G\_ASSERT\_FAILED, which no caller in this file can cause (the callers test the
  character first).
\<close>

definition read_json_string ::
  "'f platform \<Rightarrow> byte list \<Rightarrow> nat \<Rightarrow> error + ('f fl_value \<times> nat)" where
  "read_json_string P buffer offset =
     (if current_char buffer offset \<noteq> 0x22 then Inl G_ASSERT_FAILED
      else read_json_string_loop P buffer (next_char offset) [])"

subsection \<open>Numbers\<close>

lemma json_digit_nonzero: "\<not> json_digit_to_int c < 0 \<Longrightarrow> c \<noteq> 0"
  by (auto simp: json_digit_to_int_def split: if_splits)

text \<open>
  \<open>read_json_digits\<close> accumulates the digits in a 64-bit integer, which wraps around.
  The pointer \<open>divisor\<close> is \<open>None\<close> when it is null; otherwise the cell it points to
  is set to 1 and multiplied by 10 for each digit.
\<close>

function read_json_digits_loop ::
  "byte list \<Rightarrow> nat \<Rightarrow> int64 \<Rightarrow> int64 option \<Rightarrow> int64 \<times> int64 option \<times> nat" where
  "read_json_digits_loop buffer offset v divisor =
     (let c = current_char buffer offset
      in if json_digit_to_int c < 0 then (v, divisor, offset)
         else read_json_digits_loop buffer (next_char offset)
                (v * 10 + word_of_int (json_digit_to_int c))
                (map_option (\<lambda>d. d * 10) divisor))"
  by pat_completeness auto
termination
  by (relation "measure (\<lambda>(buffer, offset, v, divisor). length buffer - offset)")
     (auto simp: next_char_def dest!: json_digit_nonzero current_char_nonzero)

declare read_json_digits_loop.simps [simp del]

definition read_json_digits ::
  "byte list \<Rightarrow> nat \<Rightarrow> int64 option \<Rightarrow> int64 \<times> int64 option \<times> nat" where
  "read_json_digits buffer offset divisor =
     read_json_digits_loop buffer offset 0 (map_option (\<lambda>d. 1) divisor)"

text \<open>
  \<open>read_json_number\<close>. The variable \<open>c\<close> is read again after the integer part, and not
  after the fraction: the test for \<open>E\<close> and \<open>e\<close> is made on the character that ended
  the integer part. The result of the floating case is
  \<open>sign * (value + (double)fraction / divisor) * pow(10, exponent_sign * exponent)\<close>,
  the integers converted to double where C converts them.
\<close>

definition read_json_number ::
  "'f platform \<Rightarrow> byte list \<Rightarrow> nat \<Rightarrow> error + ('f fl_value \<times> nat)" where
  "read_json_number P buffer offset =
     (let c = current_char buffer offset;
          negative = (c = 0x2D);
          sign = (if negative then - 1 else 1);
          offset = (if negative then next_char offset else offset);
          c = (if negative then current_char buffer offset else c)
      in if negative \<and> json_digit_to_int c < 0 then Inl INVALID_NUMBER
         else
           let (v, offset) =
                 (if c = 0x30 then (0, next_char offset)
                  else case read_json_digits buffer offset None of
                         (v, d, offset') \<Rightarrow> (v, offset'));
               c = current_char buffer offset
           in case (if c = 0x2E then
                      (let offset = next_char offset
                       in if json_digit_to_int (current_char buffer offset) < 0
                          then Inl INVALID_NUMBER
                          else case read_json_digits buffer offset (Some 1) of
                                 (fraction, d, offset') \<Rightarrow>
                                   Inr (True, fraction, case_option 1 id d, offset'))
                    else Inr (False, 0, 1, offset)) of
                Inl e \<Rightarrow> Inl e
              | Inr (is_floating, fraction, divisor, offset) \<Rightarrow>
                  (case (if c = 0x45 \<or> c = 0x65 then
                           (let offset = next_char offset;
                                c = current_char buffer offset;
                                exponent_sign = (if c = 0x2D then - 1 else 1);
                                offset = (if c = 0x2D \<or> c = 0x2B then next_char offset
                                          else offset)
                            in if json_digit_to_int (current_char buffer offset) < 0
                               then Inl INVALID_NUMBER
                               else case read_json_digits buffer offset None of
                                      (exponent, d, offset') \<Rightarrow>
                                        Inr (True, exponent, exponent_sign, offset'))
                         else Inr (is_floating, 0, 1, offset)) of
                     Inl e \<Rightarrow> Inl e
                   | Inr (is_floating, exponent, exponent_sign, offset) \<Rightarrow>
                       if is_floating then
                         Inr (FL_FLOAT
                                (dmul P
                                  (dmul P (double_of_int64 P sign)
                                    (dadd P (double_of_int64 P v)
                                      (ddiv P (double_of_int64 P fraction)
                                              (double_of_int64 P divisor))))
                                  (pow P (double_of_int64 P 10)
                                         (double_of_int64 P (exponent_sign * exponent)))),
                              offset)
                       else Inr (FL_INT (sign * v), offset)))"

subsection \<open>Lists and maps of the value model\<close>

text \<open>
  Modelled from the spec: the constructors and accessors of fl\_value.cc that the reader
  uses. \<open>fl_value_append\<close> adds a child at the end of a list. \<open>fl_value_set\<close> stores a
  pair in a map: a key that is already present keeps its place and gets the new value
  (last write wins, and the length counts each key once); a new key goes to the end.
  The keys the reader stores are strings, compared byte by byte.
\<close>

definition fl_value_new_list :: "'f fl_value" where
  "fl_value_new_list = FL_LIST []"

definition fl_value_new_map :: "'f fl_value" where
  "fl_value_new_map = FL_MAP []"

fun fl_value_get_length :: "'f fl_value \<Rightarrow> nat" where
  "fl_value_get_length (FL_UINT8_LIST vs) = length vs"
| "fl_value_get_length (FL_INT32_LIST vs) = length vs"
| "fl_value_get_length (FL_INT64_LIST vs) = length vs"
| "fl_value_get_length (FL_FLOAT_LIST vs) = length vs"
| "fl_value_get_length (FL_LIST vs) = length vs"
| "fl_value_get_length (FL_MAP kvs) = length kvs"
| "fl_value_get_length v = 0"

fun fl_value_append :: "'f fl_value \<Rightarrow> 'f fl_value \<Rightarrow> 'f fl_value" where
  "fl_value_append (FL_LIST vs) child = FL_LIST (vs @ [child])"
| "fl_value_append v child = v"

fun fl_value_set :: "'f fl_value \<Rightarrow> 'f fl_value \<Rightarrow> 'f fl_value \<Rightarrow> 'f fl_value" where
  "fl_value_set (FL_MAP kvs) key v =
     (if key \<in> fst ` set kvs
      then FL_MAP (map (\<lambda>kv. if fst kv = key then (key, v) else kv) kvs)
      else FL_MAP (kvs @ [(key, v)]))"
| "fl_value_set m key v = m"

subsection \<open>Objects, arrays and values\<close>

lemma read_whitespace_mono: "offset \<le> read_whitespace buffer offset"
proof (induction buffer offset rule: read_whitespace.induct)
  case (1 buffer offset)
  then show ?case
    by (subst read_whitespace.simps) (auto simp: next_char_def)
qed

lemma read_comma_mono: "read_comma buffer offset = Inr offset' \<Longrightarrow> offset < offset'"
  by (auto simp: read_comma_def next_char_def Let_def split: if_splits)

lemma read_json_string_loop_mono:
  "read_json_string_loop P buffer offset str = Inr (v, offset') \<Longrightarrow> offset < offset'"
proof (induction P buffer offset str rule: read_json_string_loop.induct)
  case (1 P buffer offset str)
  show ?case
  proof (cases "current_char buffer offset = 0x22")
    case True
    with "1.prems" show ?thesis
      by (subst (asm) read_json_string_loop.simps) (auto simp: Let_def next_char_def)
  next
    case q: False
    show ?thesis
    proof (cases "current_char buffer offset = 0x5C")
      case True
      with "1.prems" obtain wc off1 where
        e: "read_json_string_escape buffer (next_char offset) = Inr (wc, off1)"
        and r: "read_json_string_loop P buffer off1 (g_string_append_unichar str wc) = Inr (v, offset')"
        by (subst (asm) read_json_string_loop.simps) (auto simp: Let_def split: sum.splits)
      from "1.IH"(1)[OF refl q True e refl r] have "off1 < offset'" .
      with read_json_string_escape_mono[OF e] show ?thesis by (simp add: next_char_def)
    next
      case False
      with q "1.prems" have
        c: "current_char buffer offset \<noteq> 0" "\<not> char_to_int P (current_char buffer offset) < 0x20"
        and r: "read_json_string_loop P buffer (next_char offset)
                  (g_string_append_c str (current_char buffer offset)) = Inr (v, offset')"
        by (subst (asm) read_json_string_loop.simps, auto simp: Let_def split: if_splits)+
      from "1.IH"(2)[OF refl q False c r] show ?thesis by (simp add: next_char_def)
    qed
  qed
qed

lemma read_json_string_mono:
  "read_json_string P buffer offset = Inr (v, offset') \<Longrightarrow> offset < offset'"
  by (auto simp: read_json_string_def next_char_def split: if_splits dest!: read_json_string_loop_mono)

text \<open>
  \<open>read_value\<close>, \<open>read_json_object\<close> and \<open>read_json_array\<close> call each other. The loops
  of the object and the array reader carry the map and the list built so far. Each
  round of a loop reads a value, which takes at least one byte (lemma
  \<open>read_value_advances\<close>); the definition tests that the offset has moved before it
  goes round again, which is what makes the recursion well-founded, and the lemmas
  \<open>read_json_array_loop_unfold\<close> and \<open>read_json_object_loop_unfold\<close> give the loops
  without the test.
\<close>

function read_value :: "'f platform \<Rightarrow> byte list \<Rightarrow> nat \<Rightarrow> error + ('f fl_value \<times> nat)"
  and read_json_object :: "'f platform \<Rightarrow> byte list \<Rightarrow> nat \<Rightarrow> error + ('f fl_value \<times> nat)"
  and read_json_object_loop ::
    "'f platform \<Rightarrow> byte list \<Rightarrow> nat \<Rightarrow> 'f fl_value \<Rightarrow> error + ('f fl_value \<times> nat)"
  and read_json_array :: "'f platform \<Rightarrow> byte list \<Rightarrow> nat \<Rightarrow> error + ('f fl_value \<times> nat)"
  and read_json_array_loop ::
    "'f platform \<Rightarrow> byte list \<Rightarrow> nat \<Rightarrow> 'f fl_value \<Rightarrow> error + ('f fl_value \<times> nat)"
where
  "read_value P buffer offset =
     (let offset1 = read_whitespace buffer offset;
          c = current_char buffer offset1
      in (case (if c = 0x7B then read_json_object P buffer offset1
                else if c = 0x5B then read_json_array P buffer offset1
                else if c = 0x22 then read_json_string P buffer offset1
                else if c = 0x2D \<or> json_digit_to_int c \<ge> 0 then read_json_number P buffer offset1
                else if c = 0x74 then read_json_true buffer offset1
                else if c = 0x66 then read_json_false buffer offset1
                else if c = 0x6E then read_json_null buffer offset1
                else if c = 0 then Inl OUT_OF_DATA
                else Inl FAILED) of
            Inl e \<Rightarrow> Inl e
          | Inr (v, offset2) \<Rightarrow> Inr (v, read_whitespace buffer offset2)))"
| "read_json_object P buffer offset =
     (if current_char buffer offset \<noteq> 0x7B then Inl G_ASSERT_FAILED
      else read_json_object_loop P buffer (next_char offset) fl_value_new_map)"
| "read_json_object_loop P buffer offset m =
     (let offset1 = read_whitespace buffer offset;
          c = current_char buffer offset1
      in if c = 0 then Inl OUT_OF_DATA
         else if c = 0x7D then Inr (m, next_char offset1)
         else
           (case (if fl_value_get_length m \<noteq> 0 then
                    (case read_comma buffer offset1 of
                       Inl e \<Rightarrow> Inl e
                     | Inr offset' \<Rightarrow> Inr (read_whitespace buffer offset'))
                  else Inr offset1) of
              Inl e \<Rightarrow> Inl e
            | Inr offset2 \<Rightarrow>
                (if current_char buffer offset2 \<noteq> 0x22 then Inl INVALID_OBJECT_KEY_TYPE
                 else
                   (case read_json_string P buffer offset2 of
                      Inl e \<Rightarrow> Inl e
                    | Inr (key, offset3) \<Rightarrow>
                        (let offset4 = read_whitespace buffer offset3
                         in if current_char buffer offset4 \<noteq> 0x3A then Inl FAILED
                            else
                              (case read_value P buffer (next_char offset4) of
                                 Inl e \<Rightarrow> Inl e
                               | Inr (v, offset5) \<Rightarrow>
                                   (if offset5 \<le> offset then Inl FAILED
                                    else read_json_object_loop P buffer offset5
                                           (fl_value_set m key v))))))))"
| "read_json_array P buffer offset =
     (if current_char buffer offset \<noteq> 0x5B then Inl G_ASSERT_FAILED
      else read_json_array_loop P buffer (next_char offset) fl_value_new_list)"
| "read_json_array_loop P buffer offset l =
     (let offset1 = read_whitespace buffer offset;
          c = current_char buffer offset1
      in if c = 0 then Inl OUT_OF_DATA
         else if c = 0x5D then Inr (l, next_char offset1)
         else
           (case (if fl_value_get_length l \<noteq> 0 then
                    (case read_comma buffer offset1 of
                       Inl e \<Rightarrow> Inl e
                     | Inr offset' \<Rightarrow> Inr (read_whitespace buffer offset'))
                  else Inr offset1) of
              Inl e \<Rightarrow> Inl e
            | Inr offset2 \<Rightarrow>
                (case read_value P buffer offset2 of
                   Inl e \<Rightarrow> Inl e
                 | Inr (child, offset3) \<Rightarrow>
                     (if offset3 \<le> offset then Inl FAILED
                      else read_json_array_loop P buffer offset3 (fl_value_append l child)))))"
  by pat_completeness auto

termination
proof (relation "measure (\<lambda>x. case x of
      Inl (Inl (P, buffer, offset)) \<Rightarrow> 3 * (length buffer - offset) + 1
    | Inl (Inr (P, buffer, offset)) \<Rightarrow> 3 * (length buffer - offset)
    | Inr (Inl (P, buffer, offset, m)) \<Rightarrow> 3 * (length buffer - offset) + 2
    | Inr (Inr (Inl (P, buffer, offset))) \<Rightarrow> 3 * (length buffer - offset)
    | Inr (Inr (Inr (P, buffer, offset, l))) \<Rightarrow> 3 * (length buffer - offset) + 2)",
    goal_cases)
  case 1
  show ?case by simp
next
  case (2 P buffer offset x xa)
  then show ?case using read_whitespace_mono[of offset buffer] by simp
next
  case (3 P buffer offset x xa)
  then show ?case using read_whitespace_mono[of offset buffer] by simp
next
  case (4 P buffer offset)
  then have "offset < length buffer" by (auto intro: current_char_nonzero)
  then show ?case by (simp add: next_char_def)
next
  case (5 P buffer offset m x xa b ba xb y xc)
  have "offset \<le> x" using 5 read_whitespace_mono[of offset buffer] by simp
  also have "x \<le> b" using 5 read_whitespace_mono
    by (auto split: if_splits sum.splits dest!: read_comma_mono intro: less_imp_le order_trans)
  also have "b \<le> y" using 5 by (auto dest!: read_json_string_mono)
  also have "y \<le> xc" using 5 read_whitespace_mono by simp
  finally show ?case by (simp add: next_char_def)
next
  case (6 P buffer offset m x xa b ba xb y xc bb xd ya)
  have "offset \<le> x" using 6 read_whitespace_mono[of offset buffer] by simp
  moreover have "x < length buffer" using 6 by (auto intro: current_char_nonzero)
  ultimately show ?case using 6 by simp
next
  case (7 P buffer offset)
  then have "offset < length buffer" by (auto intro: current_char_nonzero)
  then show ?case by (simp add: next_char_def)
next
  case (8 P buffer offset l x xa b)
  have "offset \<le> x" using 8 read_whitespace_mono[of offset buffer] by simp
  also have "x \<le> b" using 8 read_whitespace_mono
    by (auto split: if_splits sum.splits dest!: read_comma_mono intro: less_imp_le order_trans)
  finally show ?case by simp
next
  case (9 P buffer offset l x xa b ba xb y)
  have "offset \<le> x" using 9 read_whitespace_mono[of offset buffer] by simp
  moreover have "x < length buffer" using 9 by (auto intro: current_char_nonzero)
  ultimately show ?case using 9 by simp
qed

declare read_value.simps [simp del] read_json_object.simps [simp del]
  read_json_object_loop.simps [simp del] read_json_array.simps [simp del]
  read_json_array_loop.simps [simp del]

text \<open>
  The two entry points: \<open>decode_message\<close> reads a value from a byte buffer and
  requires the offset to be at its end; \<open>decode\<close> takes a C string, of which it reads
  \<open>strlen(text)\<close> bytes.
\<close>

definition fl_json_message_codec_decode_message ::
  "'f platform \<Rightarrow> byte list \<Rightarrow> error + 'f fl_value" where
  "fl_json_message_codec_decode_message P message =
     (case read_value P message 0 of
        Inl e \<Rightarrow> Inl e
      | Inr (v, offset) \<Rightarrow>
          if offset \<noteq> length message
          then Inl (ADDITIONAL_DATA (length message - offset))
          else Inr v)"

definition fl_json_message_codec_decode ::
  "'f platform \<Rightarrow> byte list \<Rightarrow> error + 'f fl_value" where
  "fl_json_message_codec_decode P text =
     fl_json_message_codec_decode_message P (c_str text)"

subsection \<open>The reader moves forward and stays inside the buffer\<close>

lemma read_whitespace_le: "offset \<le> length buffer \<Longrightarrow> read_whitespace buffer offset \<le> length buffer"
proof (induction buffer offset rule: read_whitespace.induct)
  case (1 buffer offset)
  show ?case
  proof (cases "is_json_whitespace (current_char buffer offset)")
    case True
    then have "offset < length buffer"
      by (auto dest!: is_json_whitespace_nonzero current_char_nonzero)
    with True "1.IH" show ?thesis
      by (subst read_whitespace.simps) (simp add: next_char_def)
  next
    case False
    with "1.prems" show ?thesis by (subst read_whitespace.simps) simp
  qed
qed

lemma read_word_offset:
  "read_word buffer offset w = Inr offset' \<Longrightarrow> offset' = offset + length w"
  by (induction w arbitrary: offset) (force simp: next_char_def split: if_splits)+

lemma read_word_le:
  "read_word buffer offset w = Inr offset' \<Longrightarrow> 0 \<notin> set w \<Longrightarrow> offset \<le> length buffer
   \<Longrightarrow> offset' \<le> length buffer"
proof (induction w arbitrary: offset)
  case Nil
  then show ?case by simp
next
  case (Cons a w)
  from Cons.prems have c: "current_char buffer offset = a" "a \<noteq> 0"
    and r: "read_word buffer (next_char offset) w = Inr offset'"
    by (auto split: if_splits)
  from c have "offset < length buffer" by (auto intro: current_char_nonzero)
  with Cons.IH[OF r] Cons.prems show ?case by (simp add: next_char_def)
qed

lemma read_json_string_loop_le:
  "read_json_string_loop P buffer offset str = Inr (v, offset') \<Longrightarrow> offset' \<le> length buffer"
proof (induction P buffer offset str rule: read_json_string_loop.induct)
  case (1 P buffer offset str)
  show ?case
  proof (cases "current_char buffer offset = 0x22")
    case True
    then have "offset < length buffer" by (auto intro: current_char_nonzero)
    with True "1.prems" show ?thesis
      by (subst (asm) read_json_string_loop.simps) (auto simp: Let_def next_char_def)
  next
    case q: False
    show ?thesis
    proof (cases "current_char buffer offset = 0x5C")
      case True
      with "1.prems" obtain wc off1 where
        e: "read_json_string_escape buffer (next_char offset) = Inr (wc, off1)"
        and r: "read_json_string_loop P buffer off1 (g_string_append_unichar str wc) = Inr (v, offset')"
        by (subst (asm) read_json_string_loop.simps) (auto simp: Let_def split: sum.splits)
      from "1.IH"(1)[OF refl q True e refl r] show ?thesis .
    next
      case False
      with q "1.prems" have
        c: "current_char buffer offset \<noteq> 0" "\<not> char_to_int P (current_char buffer offset) < 0x20"
        and r: "read_json_string_loop P buffer (next_char offset)
                  (g_string_append_c str (current_char buffer offset)) = Inr (v, offset')"
        by (subst (asm) read_json_string_loop.simps, auto simp: Let_def split: if_splits)+
      from "1.IH"(2)[OF refl q False c r] show ?thesis .
    qed
  qed
qed

lemma read_json_string_le:
  "read_json_string P buffer offset = Inr (v, offset') \<Longrightarrow> offset' \<le> length buffer"
  by (auto simp: read_json_string_def split: if_splits dest!: read_json_string_loop_le)

lemma read_json_digits_loop_bounds:
  "read_json_digits_loop buffer offset v d = (v', d', offset') \<Longrightarrow>
     offset \<le> offset' \<and> (offset \<le> length buffer \<longrightarrow> offset' \<le> length buffer)
     \<and> (\<not> json_digit_to_int (current_char buffer offset) < 0 \<longrightarrow> offset < offset')"
proof (induction buffer offset v d rule: read_json_digits_loop.induct)
  case (1 buffer offset v d)
  show ?case
  proof (cases "json_digit_to_int (current_char buffer offset) < 0")
    case True
    with "1.prems" show ?thesis
      by (subst (asm) read_json_digits_loop.simps) (simp add: Let_def)
  next
    case False
    then have lt: "offset < length buffer"
      by (auto dest!: json_digit_nonzero current_char_nonzero)
    from False "1.prems" have "read_json_digits_loop buffer (next_char offset)
        (v * 10 + word_of_int (json_digit_to_int (current_char buffer offset)))
        (map_option (\<lambda>d. d * 10) d) = (v', d', offset')"
      by (subst (asm) read_json_digits_loop.simps) (simp add: Let_def)
    from "1.IH"[OF refl False this] lt show ?thesis by (simp add: next_char_def)
  qed
qed

lemma read_json_digits_bounds:
  "read_json_digits buffer offset d = (v', d', offset') \<Longrightarrow>
     offset \<le> offset' \<and> (offset \<le> length buffer \<longrightarrow> offset' \<le> length buffer)
     \<and> (\<not> json_digit_to_int (current_char buffer offset) < 0 \<longrightarrow> offset < offset')"
  unfolding read_json_digits_def by (rule read_json_digits_loop_bounds)

lemma read_json_number_bounds:
  assumes "read_json_number P buffer offset = Inr (v, offset')"
    and "current_char buffer offset = 0x2D \<or> \<not> json_digit_to_int (current_char buffer offset) < 0"
  shows "offset < offset' \<and> offset' \<le> length buffer"
proof -
  from assms(2) have "current_char buffer offset \<noteq> 0"
    by (auto dest: json_digit_nonzero)
  then have lt: "offset < length buffer"
    by (rule current_char_nonzero)
  have nz: "\<And>o1. current_char buffer o1 = 0x30 \<Longrightarrow> o1 < length buffer"
     "\<And>o1. current_char buffer o1 = 0x2E \<Longrightarrow> o1 < length buffer"
     "\<And>o1. current_char buffer o1 = 0x45 \<Longrightarrow> o1 < length buffer"
     "\<And>o1. current_char buffer o1 = 0x65 \<Longrightarrow> o1 < length buffer"
     "\<And>o1. current_char buffer o1 = 0x2D \<Longrightarrow> o1 < length buffer"
     "\<And>o1. current_char buffer o1 = 0x2B \<Longrightarrow> o1 < length buffer"
    by (rule current_char_nonzero, simp)+
  show ?thesis
    using assms lt
    unfolding read_json_number_def Let_def next_char_def
    by (auto split: if_splits sum.splits prod.splits dest!: read_json_digits_bounds nz)
qed

lemma read_word_bounds:
  assumes "read_word buffer offset w = Inr offset'" "w \<noteq> []" "0 \<notin> set w" "offset \<le> length buffer"
  shows "offset < offset' \<and> offset' \<le> length buffer"
  using read_word_offset[OF assms(1)] read_word_le[OF assms(1,3,4)] assms(2) by simp

lemma lit_words: "lit ''true'' \<noteq> []" "0 \<notin> set (lit ''true'')"
  "lit ''false'' \<noteq> []" "0 \<notin> set (lit ''false'')"
  "lit ''null'' \<noteq> []" "0 \<notin> set (lit ''null'')"
  by (simp_all add: lit_def)

lemma read_word_case_bounds:
  assumes "(case read_word buffer offset w of Inl e \<Rightarrow> Inl e | Inr off \<Rightarrow> Inr (x, off)) = Inr (v, offset')"
    and "w \<noteq> []" "0 \<notin> set w" "offset \<le> length buffer"
  shows "offset < offset' \<and> offset' \<le> length buffer"
proof (cases "read_word buffer offset w")
  case (Inl e)
  with assms(1) show ?thesis by simp
next
  case (Inr off)
  with assms(1) have "off = offset'" by simp
  with Inr read_word_bounds[OF _ assms(2-4)] show ?thesis by simp
qed

lemma read_json_true_bounds:
  "read_json_true buffer offset = Inr (v, offset') \<Longrightarrow> offset \<le> length buffer \<Longrightarrow>
     offset < offset' \<and> offset' \<le> length buffer"
  unfolding read_json_true_def by (rule read_word_case_bounds[OF _ lit_words(1,2)])

lemma read_json_false_bounds:
  "read_json_false buffer offset = Inr (v, offset') \<Longrightarrow> offset \<le> length buffer \<Longrightarrow>
     offset < offset' \<and> offset' \<le> length buffer"
  unfolding read_json_false_def by (rule read_word_case_bounds[OF _ lit_words(3,4)])

lemma read_json_null_bounds:
  "read_json_null buffer offset = Inr (v, offset') \<Longrightarrow> offset \<le> length buffer \<Longrightarrow>
     offset < offset' \<and> offset' \<le> length buffer"
  unfolding read_json_null_def by (rule read_word_case_bounds[OF _ lit_words(5,6)])

lemma read_scalars_bounds:
  fixes v :: "'f fl_value"
  assumes "(if c = 0x22 then read_json_string P buffer offset1
            else if c = 0x2D \<or> json_digit_to_int c \<ge> 0 then read_json_number P buffer offset1
            else if c = 0x74 then read_json_true buffer offset1
            else if c = 0x66 then read_json_false buffer offset1
            else if c = 0x6E then read_json_null buffer offset1
            else if c = 0 then Inl OUT_OF_DATA
            else Inl FAILED) = Inr (v, offset2)"
    and "c = current_char buffer offset1"
  shows "offset1 < offset2 \<and> offset2 \<le> length buffer"
proof -
  have nz: "c \<noteq> 0" using assms(1) by (auto split: if_splits simp: json_digit_to_int_def)
  then have "offset1 < length buffer" using assms(2) by (auto intro: current_char_nonzero)
  then show ?thesis
    using assms
    by (auto split: if_splits dest: read_json_string_mono read_json_string_le
          read_json_number_bounds read_json_true_bounds read_json_false_bounds
          read_json_null_bounds)
qed

lemma read_comma_ws_bounds:
  assumes "(if n \<noteq> (0::nat) then
              (case read_comma buffer offset1 of
                 Inl e \<Rightarrow> Inl e
               | Inr offset' \<Rightarrow> Inr (read_whitespace buffer offset'))
            else Inr offset1) = Inr offset2"
    and "offset1 < length buffer"
  shows "offset1 \<le> offset2 \<and> offset2 \<le> length buffer"
  using assms read_whitespace_mono[of "Suc offset1" buffer] read_whitespace_le[of "Suc offset1" buffer]
  by (auto split: if_splits sum.splits simp: read_comma_def Let_def next_char_def)

lemma read_value_bounds:
  fixes P :: "'f platform"
  shows "read_value P buffer offset = Inr (v, offset') \<Longrightarrow>
           offset < offset' \<and> offset' \<le> length buffer"
    and "read_json_object P buffer offset = Inr (v, offset') \<Longrightarrow>
           offset < offset' \<and> offset' \<le> length buffer"
    and "read_json_object_loop P buffer offset m = Inr (v, offset') \<Longrightarrow>
           offset < offset' \<and> offset' \<le> length buffer"
    and "read_json_array P buffer offset = Inr (v, offset') \<Longrightarrow>
           offset < offset' \<and> offset' \<le> length buffer"
    and "read_json_array_loop P buffer offset l = Inr (v, offset') \<Longrightarrow>
           offset < offset' \<and> offset' \<le> length buffer"
proof (induction P buffer offset and P buffer offset and P buffer offset m
         and P buffer offset and P buffer offset l
       arbitrary: v offset' and v offset' and v offset' and v offset' and v offset'
       rule: read_value_read_json_object_read_json_object_loop_read_json_array_read_json_array_loop.induct)
  case (1 P buffer offset)
  define o1 where "o1 = read_whitespace buffer offset"
  define c where "c = current_char buffer o1"
  from "1.prems" have "(case (if c = 0x7B then read_json_object P buffer o1
         else if c = 0x5B then read_json_array P buffer o1
         else if c = 0x22 then read_json_string P buffer o1
         else if c = 0x2D \<or> json_digit_to_int c \<ge> 0 then read_json_number P buffer o1
         else if c = 0x74 then read_json_true buffer o1
         else if c = 0x66 then read_json_false buffer o1
         else if c = 0x6E then read_json_null buffer o1
         else if c = 0 then Inl OUT_OF_DATA
         else Inl FAILED) of Inl e \<Rightarrow> Inl e
       | Inr (v, o2) \<Rightarrow> Inr (v, read_whitespace buffer o2)) = Inr (v, offset')"
    unfolding o1_def c_def by (subst (asm) read_value.simps) (simp only: Let_def)
  then obtain o2 where
    d: "(if c = 0x7B then read_json_object P buffer o1
         else if c = 0x5B then read_json_array P buffer o1
         else if c = 0x22 then read_json_string P buffer o1
         else if c = 0x2D \<or> json_digit_to_int c \<ge> 0 then read_json_number P buffer o1
         else if c = 0x74 then read_json_true buffer o1
         else if c = 0x66 then read_json_false buffer o1
         else if c = 0x6E then read_json_null buffer o1
         else if c = 0 then Inl OUT_OF_DATA
         else Inl FAILED) = Inr (v, o2)"
    and o: "offset' = read_whitespace buffer o2"
    by (simp split: sum.splits prod.splits split del: if_split)
  have "o1 < o2 \<and> o2 \<le> length buffer"
  proof (cases "c = 0x7B")
    case True
    with d "1.IH"(1)[OF o1_def c_def True] show ?thesis by simp
  next
    case n1: False
    show ?thesis
    proof (cases "c = 0x5B")
      case True
      with n1 d "1.IH"(2)[OF o1_def c_def n1 True] show ?thesis by simp
    next
      case False
      with n1 d show ?thesis
        by (intro read_scalars_bounds[where c = c and P = P]) (simp_all add: c_def)
    qed
  qed
  with o read_whitespace_mono[of offset buffer] read_whitespace_mono[of o2 buffer]
    read_whitespace_le[of o2 buffer]
  show ?case by (simp add: o1_def)
next
  case (2 P buffer offset)
  from "2.prems" have c: "\<not> current_char buffer offset \<noteq> 0x7B"
    and r: "read_json_object_loop P buffer (next_char offset) fl_value_new_map = Inr (v, offset')"
    by (subst (asm) read_json_object.simps, simp split: if_splits)+
  from "2.IH"[OF c r] show ?case by (simp add: next_char_def)
next
  case (3 P buffer offset m)
  define o1 where "o1 = read_whitespace buffer offset"
  define c where "c = current_char buffer o1"
  have o1: "offset \<le> o1" by (simp add: o1_def read_whitespace_mono)
  from "3.prems" have c0: "c \<noteq> 0"
    by (subst (asm) read_json_object_loop.simps) (auto simp: Let_def o1_def c_def split: if_splits)
  then have lt: "o1 < length buffer" by (auto simp: c_def intro: current_char_nonzero)
  show ?case
  proof (cases "c = 0x7D")
    case True
    with "3.prems" c0 have "offset' = next_char o1"
      by (subst (asm) read_json_object_loop.simps) (auto simp: Let_def o1_def c_def)
    with o1 lt show ?thesis by (simp add: next_char_def)
  next
    case False
    with "3.prems" c0 obtain o2 key o3 val o5 where
      cm: "(if fl_value_get_length m \<noteq> 0 then
              (case read_comma buffer o1 of
                 Inl e \<Rightarrow> Inl e
               | Inr offset' \<Rightarrow> Inr (read_whitespace buffer offset'))
            else Inr o1) = Inr o2"
      and q: "\<not> current_char buffer o2 \<noteq> 0x22"
      and s: "read_json_string P buffer o2 = Inr (key, o3)"
      and col: "\<not> current_char buffer (read_whitespace buffer o3) \<noteq> 0x3A"
      and rv: "read_value P buffer (next_char (read_whitespace buffer o3)) = Inr (val, o5)"
      and g: "\<not> o5 \<le> offset"
      and rec: "read_json_object_loop P buffer o5 (fl_value_set m key val) = Inr (v, offset')"
      by (subst (asm) read_json_object_loop.simps)
         (auto simp: Let_def o1_def c_def split: if_splits sum.splits prod.splits)
    from "3.IH"(2)[OF o1_def c_def c0 False cm q s refl refl col rv refl g rec] g
    show ?thesis by simp
  qed
next
  case (4 P buffer offset)
  from "4.prems" have c: "\<not> current_char buffer offset \<noteq> 0x5B"
    and r: "read_json_array_loop P buffer (next_char offset) fl_value_new_list = Inr (v, offset')"
    by (subst (asm) read_json_array.simps, simp split: if_splits)+
  from "4.IH"[OF c r] show ?case by (simp add: next_char_def)
next
  case (5 P buffer offset l)
  define o1 where "o1 = read_whitespace buffer offset"
  define c where "c = current_char buffer o1"
  have o1: "offset \<le> o1" by (simp add: o1_def read_whitespace_mono)
  from "5.prems" have c0: "c \<noteq> 0"
    by (subst (asm) read_json_array_loop.simps) (auto simp: Let_def o1_def c_def split: if_splits)
  then have lt: "o1 < length buffer" by (auto simp: c_def intro: current_char_nonzero)
  show ?case
  proof (cases "c = 0x5D")
    case True
    with "5.prems" c0 have "offset' = next_char o1"
      by (subst (asm) read_json_array_loop.simps) (auto simp: Let_def o1_def c_def)
    with o1 lt show ?thesis by (simp add: next_char_def)
  next
    case False
    with "5.prems" c0 obtain o2 child o3 where
      cm: "(if fl_value_get_length l \<noteq> 0 then
              (case read_comma buffer o1 of
                 Inl e \<Rightarrow> Inl e
               | Inr offset' \<Rightarrow> Inr (read_whitespace buffer offset'))
            else Inr o1) = Inr o2"
      and rv: "read_value P buffer o2 = Inr (child, o3)"
      and g: "\<not> o3 \<le> offset"
      and rec: "read_json_array_loop P buffer o3 (fl_value_append l child) = Inr (v, offset')"
      by (subst (asm) read_json_array_loop.simps)
         (auto simp: Let_def o1_def c_def split: if_splits sum.splits prod.splits)
    from "5.IH"(2)[OF o1_def c_def c0 False cm rv refl g rec] g
    show ?thesis by simp
  qed
qed

text \<open>The loops of the array and the object reader, without the test of the offset.\<close>

lemma read_comma_ws_mono:
  assumes "(if n \<noteq> (0::nat) then
              (case read_comma buffer offset1 of
                 Inl e \<Rightarrow> Inl e
               | Inr offset' \<Rightarrow> Inr (read_whitespace buffer offset'))
            else Inr offset1) = Inr offset2"
  shows "offset1 \<le> offset2"
  using assms read_whitespace_mono[of "Suc offset1" buffer]
  by (auto split: if_splits sum.splits simp: read_comma_def Let_def next_char_def)

lemma read_json_array_loop_unfold:
  "read_json_array_loop P buffer offset l =
     (let offset1 = read_whitespace buffer offset;
          c = current_char buffer offset1
      in if c = 0 then Inl OUT_OF_DATA
         else if c = 0x5D then Inr (l, next_char offset1)
         else
           (case (if fl_value_get_length l \<noteq> 0 then
                    (case read_comma buffer offset1 of
                       Inl e \<Rightarrow> Inl e
                     | Inr offset' \<Rightarrow> Inr (read_whitespace buffer offset'))
                  else Inr offset1) of
              Inl e \<Rightarrow> Inl e
            | Inr offset2 \<Rightarrow>
                (case read_value P buffer offset2 of
                   Inl e \<Rightarrow> Inl e
                 | Inr (child, offset3) \<Rightarrow>
                     read_json_array_loop P buffer offset3 (fl_value_append l child))))"
proof -
  have g: "\<not> o3 \<le> offset"
    if "(if fl_value_get_length l \<noteq> 0 then
            (case read_comma buffer (read_whitespace buffer offset) of
               Inl e \<Rightarrow> Inl e
             | Inr offset' \<Rightarrow> Inr (read_whitespace buffer offset'))
          else Inr (read_whitespace buffer offset)) = Inr o2"
      and "read_value P buffer o2 = Inr (child, o3)" for o2 child o3
    using read_comma_ws_mono[OF that(1)] read_value_bounds(1)[OF that(2)]
      read_whitespace_mono[of offset buffer] by simp
  show ?thesis
    by (subst read_json_array_loop.simps)
       (simp add: Let_def g split: sum.splits prod.splits split del: if_split cong: if_cong)
qed

lemma read_json_object_loop_unfold:
  "read_json_object_loop P buffer offset m =
     (let offset1 = read_whitespace buffer offset;
          c = current_char buffer offset1
      in if c = 0 then Inl OUT_OF_DATA
         else if c = 0x7D then Inr (m, next_char offset1)
         else
           (case (if fl_value_get_length m \<noteq> 0 then
                    (case read_comma buffer offset1 of
                       Inl e \<Rightarrow> Inl e
                     | Inr offset' \<Rightarrow> Inr (read_whitespace buffer offset'))
                  else Inr offset1) of
              Inl e \<Rightarrow> Inl e
            | Inr offset2 \<Rightarrow>
                (if current_char buffer offset2 \<noteq> 0x22 then Inl INVALID_OBJECT_KEY_TYPE
                 else
                   (case read_json_string P buffer offset2 of
                      Inl e \<Rightarrow> Inl e
                    | Inr (key, offset3) \<Rightarrow>
                        (let offset4 = read_whitespace buffer offset3
                         in if current_char buffer offset4 \<noteq> 0x3A then Inl FAILED
                            else
                              (case read_value P buffer (next_char offset4) of
                                 Inl e \<Rightarrow> Inl e
                               | Inr (v, offset5) \<Rightarrow>
                                   read_json_object_loop P buffer offset5
                                     (fl_value_set m key v)))))))"
proof -
  have g: "\<not> o5 \<le> offset"
    if "(if fl_value_get_length m \<noteq> 0 then
            (case read_comma buffer (read_whitespace buffer offset) of
               Inl e \<Rightarrow> Inl e
             | Inr offset' \<Rightarrow> Inr (read_whitespace buffer offset'))
          else Inr (read_whitespace buffer offset)) = Inr o2"
      and "read_json_string P buffer o2 = Inr (key, o3)"
      and "read_value P buffer (next_char (read_whitespace buffer o3)) = Inr (v, o5)"
    for o2 key o3 v o5
    using read_comma_ws_mono[OF that(1)] read_json_string_mono[OF that(2)]
      read_value_bounds(1)[OF that(3)]
      read_whitespace_mono[of offset buffer] read_whitespace_mono[of o3 buffer]
    by (simp add: next_char_def)
  show ?thesis
    by (subst read_json_object_loop.simps)
       (simp add: Let_def g split: sum.splits prod.splits split del: if_split cong: if_cong)
qed

section \<open>Values that contain a non-finite double\<close>

text \<open>
  A value contains a non-finite double when it is a float that is not finite, a float
  list with such an element, or a list or a map with a child, a key or a value that
  contains one. An absent value contains none.
\<close>

fun has_nonfinite :: "'f platform \<Rightarrow> 'f fl_value \<Rightarrow> bool" where
  "has_nonfinite P (FL_FLOAT v) = (\<not> isfinite P v)"
| "has_nonfinite P (FL_FLOAT_LIST vs) = (\<exists>v \<in> set vs. \<not> isfinite P v)"
| "has_nonfinite P (FL_LIST vs) = (\<exists>v \<in> set vs. has_nonfinite P v)"
| "has_nonfinite P (FL_MAP kvs) =
     (\<exists>kv \<in> set kvs. has_nonfinite P (fst kv) \<or> has_nonfinite P (snd kv))"
| "has_nonfinite P v = False"

definition contains_nonfinite :: "'f platform \<Rightarrow> 'f fl_value option \<Rightarrow> bool" where
  "contains_nonfinite P v = (case v of None \<Rightarrow> False | Some x \<Rightarrow> has_nonfinite P x)"

lemma write_double_error:
  "(\<exists>e. write_double P buffer v = Inl e) \<longleftrightarrow> \<not> isfinite P v"
  "write_double P buffer v = Inl e \<Longrightarrow> e = INVALID_NUMBER"
  by (auto simp: write_double_def Let_def split: if_splits)

lemma write_float_elements_error:
  "((\<exists>e. write_float_elements P buffer i vs = Inl e) \<longleftrightarrow> (\<exists>v \<in> set vs. \<not> isfinite P v))
   \<and> (\<forall>e. write_float_elements P buffer i vs = Inl e \<longrightarrow> e = INVALID_NUMBER)"
proof (induction vs arbitrary: buffer i)
  case Nil
  show ?case by simp
next
  case (Cons v vs)
  show ?case
  proof (cases "isfinite P v")
    case True
    then obtain b where "write_double P (if i \<noteq> 0 then write_char buffer 0x2C else buffer) v = Inr b"
      by (simp add: write_double_def Let_def)
    with True Cons.IH[of b "i + 1"] show ?thesis by (simp add: Let_def)
  next
    case False
    then show ?thesis by (simp add: Let_def write_double_def)
  qed
qed

lemma write_value_error:
  fixes P :: "'f platform"
  shows "((\<exists>e. write_value P buffer v = Inl e) \<longleftrightarrow> contains_nonfinite P v)
         \<and> (\<forall>e. write_value P buffer v = Inl e \<longrightarrow> e = INVALID_NUMBER)"
    and "((\<exists>e. write_list_elements P buffer i vs = Inl e) \<longleftrightarrow> (\<exists>x \<in> set vs. has_nonfinite P x))
         \<and> (\<forall>e. write_list_elements P buffer i vs = Inl e \<longrightarrow> e = INVALID_NUMBER)"
    and "((\<exists>e. write_map_elements P buffer i kvs = Inl e)
           \<longleftrightarrow> (\<exists>kv \<in> set kvs. has_nonfinite P (fst kv) \<or> has_nonfinite P (snd kv)))
         \<and> (\<forall>e. write_map_elements P buffer i kvs = Inl e \<longrightarrow> e = INVALID_NUMBER)"
proof (induction P buffer v and P buffer i vs and P buffer i kvs
       rule: write_value_write_list_elements_write_map_elements.induct)
  case (5 P buffer v)
  show ?case using write_double_error[of P buffer v]
    by (auto simp: contains_nonfinite_def)
next
  case (10 P buffer vs)
  show ?case using write_float_elements_error[of P "write_char buffer 0x5B" 0 vs]
    by (auto simp: contains_nonfinite_def Let_def split: sum.splits)
next
  case (11 P buffer vs)
  from "11.IH"[OF refl] show ?case
    by (auto simp: contains_nonfinite_def Let_def split: sum.splits)
next
  case (12 P buffer kvs)
  from "12.IH"[OF refl] show ?case
    by (auto simp: contains_nonfinite_def Let_def split: sum.splits)
next
  case (14 P buffer i v vs)
  define x where "x = (if i \<noteq> 0 then write_char buffer 0x2C else buffer)"
  have eq: "write_list_elements P buffer i (v # vs) =
      (case write_value P x (Some v) of Inl e \<Rightarrow> Inl e
       | Inr b \<Rightarrow> write_list_elements P b (i + 1) vs)"
    by (simp add: x_def Let_def)
  show ?case
  proof (cases "write_value P x (Some v)")
    case (Inl e)
    with "14.IH"(1)[OF x_def] show ?thesis
      unfolding eq by (auto simp: contains_nonfinite_def)
  next
    case (Inr b)
    with "14.IH"(1)[OF x_def] "14.IH"(2)[OF x_def Inr] show ?thesis
      unfolding eq by (auto simp: contains_nonfinite_def)
  qed
next
  case (16 P buffer i kv kvs)
  define x where "x = (if i \<noteq> 0 then write_char buffer 0x2C else buffer)"
  have eq: "write_map_elements P buffer i (kv # kvs) =
      (case write_value P x (Some (fst kv)) of Inl e \<Rightarrow> Inl e
       | Inr b \<Rightarrow>
          (case write_value P (write_char b 0x3A) (Some (snd kv)) of Inl e \<Rightarrow> Inl e
           | Inr ba \<Rightarrow> write_map_elements P ba (i + 1) kvs))"
    by (simp add: x_def Let_def split: sum.splits)
  show ?case
  proof (cases "write_value P x (Some (fst kv))")
    case (Inl e)
    with "16.IH"(1)[OF x_def] show ?thesis
      unfolding eq by (auto simp: contains_nonfinite_def)
  next
    case b: (Inr b)
    show ?thesis
    proof (cases "write_value P (write_char b 0x3A) (Some (snd kv))")
      case (Inl e)
      with b "16.IH"(1)[OF x_def] "16.IH"(2)[OF x_def b refl] show ?thesis
        unfolding eq by (auto simp: contains_nonfinite_def)
    next
      case (Inr ba)
      with b "16.IH"(1)[OF x_def] "16.IH"(2)[OF x_def b refl] "16.IH"(3)[OF x_def b refl Inr]
      show ?thesis
        unfolding eq by (auto simp: contains_nonfinite_def)
    qed
  qed
qed (simp_all add: contains_nonfinite_def Let_def)

section \<open>A platform to evaluate on\<close>

text \<open>
  Closed statements need a platform. This one has signed characters, as x86-64 has. Of a
  double it keeps only whether it is zero, infinite or NaN: \<open>isfinite\<close> holds for zero,
  which \<open>g_ascii_dtostr\<close> prints as \<open>0\<close>, and the arithmetic of the reader is not
  modelled (every operation returns zero). The statements evaluated on it are about
  integers, strings and containers, or use \<open>isfinite\<close> only.
\<close>

datatype test_double = D_ZERO | D_INFINITY | D_NAN

definition test_platform :: "test_double platform" where
  "test_platform =
     \<lparr> char_signed = True,
       isfinite = (\<lambda>d. d = D_ZERO),
       g_ascii_dtostr = (\<lambda>d. case d of D_ZERO \<Rightarrow> lit ''0'' | D_INFINITY \<Rightarrow> lit ''inf''
                                | D_NAN \<Rightarrow> lit ''nan''),
       double_of_int64 = (\<lambda>v. D_ZERO),
       dadd = (\<lambda>a b. D_ZERO),
       dmul = (\<lambda>a b. D_ZERO),
       ddiv = (\<lambda>a b. D_ZERO),
       pow = (\<lambda>a b. D_ZERO) \<rparr>"

text \<open>The equations that evaluate the reader on the bytes of a literal.\<close>

lemmas reader_eval =
  fl_json_message_codec_decode_message_def read_value.simps read_json_object.simps
  read_json_object_loop.simps read_json_array.simps read_json_array_loop.simps
  read_json_number_def read_json_digits_def read_json_digits_loop.simps
  read_json_string_def read_json_string_loop.simps read_json_string_escape_def
  read_json_unichar_code_def read_json_unichar_code_loop.simps
  read_json_true_def read_json_false_def read_json_null_def read_comma_def
  read_whitespace.simps current_char_def next_char_def lit_def json_digit_to_int_def
  json_xdigit_to_int_def is_json_whitespace_def Let_def

section \<open>The claims\<close>

text \<open>
  C6. The extremes of the 64-bit integers are exact: encoding the minimum,
  -9223372036854775808, gives exactly the bytes of \<open>-9223372036854775808\<close>, and decoding
  \<open>9223372036854775807\<close> gives the integer value 9223372036854775807, on every platform.
\<close>

theorem int64_extremes_exact:
  "fl_json_message_codec_encode_message P (Some (FL_INT (- 9223372036854775808)))
     = Inr (lit ''-9223372036854775808'')
   \<and> fl_json_message_codec_decode_message P (lit ''9223372036854775807'')
     = Inr (FL_INT 9223372036854775807)"
proof
  show "fl_json_message_codec_encode_message P (Some (FL_INT (- 9223372036854775808)))
     = Inr (lit ''-9223372036854775808'')"
    by (simp add: fl_json_message_codec_encode_message_def write_int_def G_MININT64_def
          write_string_def c_str_def lit_def)
  show "fl_json_message_codec_decode_message P (lit ''9223372036854775807'')
     = Inr (FL_INT 9223372036854775807)"
    by (simp add: reader_eval)
qed

text \<open>
  C3. A numeric literal with a fraction and an exponent does not decode to a float: after
  the fraction \<open>read_json_number\<close> tests the stale character \<open>.\<close> for \<open>E\<close> and \<open>e\<close>, the
  exponent is left unread, and the top level reports the rest as additional data. For
  \<open>1.5e3\<close> the claim says the float 1500.0; the code returns ADDITIONAL\_DATA with the
  two unread bytes \<open>e3\<close>, on every platform.
\<close>

theorem decode_fraction_exponent_additional_data:
  "fl_json_message_codec_decode_message P (lit ''1.5e3'') = Inl (ADDITIONAL_DATA 2)"
  by (simp add: reader_eval)

text \<open>
  C5. Full consumption at the top level: when \<open>read_value\<close> returns a value and the
  offset is not at the end of the message, decoding fails with ADDITIONAL\_DATA and the
  number of bytes from the offset to the end, which is positive; \<open>01\<close> and \<open>00\<close> fail
  so with one unused byte, the number reader having taken the leading \<open>0\<close> only.
\<close>

theorem decode_additional_data:
  "(read_value P message 0 = Inr (v, offset) \<and> offset \<noteq> length message \<longrightarrow>
      fl_json_message_codec_decode_message P message
        = Inl (ADDITIONAL_DATA (length message - offset))
      \<and> 0 < length message - offset)
   \<and> fl_json_message_codec_decode_message P (lit ''01'') = Inl (ADDITIONAL_DATA 1)
   \<and> fl_json_message_codec_decode_message P (lit ''00'') = Inl (ADDITIONAL_DATA 1)"
proof (intro conjI impI)
  assume a: "read_value P message 0 = Inr (v, offset) \<and> offset \<noteq> length message"
  then show "fl_json_message_codec_decode_message P message
        = Inl (ADDITIONAL_DATA (length message - offset))"
    by (simp add: fl_json_message_codec_decode_message_def)
  from a read_value_bounds(1)[of P message 0 v offset]
  show "0 < length message - offset" by simp
next
  show "fl_json_message_codec_decode_message P (lit ''01'') = Inl (ADDITIONAL_DATA 1)"
    by (simp add: reader_eval)
  show "fl_json_message_codec_decode_message P (lit ''00'') = Inl (ADDITIONAL_DATA 1)"
    by (simp add: reader_eval)
qed

theorem decode_additional_data_witness:
  "read_value test_platform (lit ''[0,1,2,3,4]]'') 0
     = Inr (FL_LIST [FL_INT 0, FL_INT 1, FL_INT 2, FL_INT 3, FL_INT 4], 11)
   \<and> 11 \<noteq> length (lit ''[0,1,2,3,4]]'')
   \<and> fl_json_message_codec_decode_message test_platform (lit ''[0,1,2,3,4]]'')
     = Inl (ADDITIONAL_DATA 1)"
proof -
  have r: "read_value test_platform (lit ''[0,1,2,3,4]]'') 0
     = Inr (FL_LIST [FL_INT 0, FL_INT 1, FL_INT 2, FL_INT 3, FL_INT 4], 11)"
    by (simp add: reader_eval fl_value_new_list_def)
  have n: "11 \<noteq> length (lit ''[0,1,2,3,4]]'')"
    by (simp add: lit_def)
  from r n decode_additional_data[of test_platform "lit ''[0,1,2,3,4]]''"
      "FL_LIST [FL_INT 0, FL_INT 1, FL_INT 2, FL_INT 3, FL_INT 4]" 11]
  show ?thesis by (simp add: lit_def)
qed

text \<open>
  C2. The escape of a control byte without a short escape is not \<open>\u00XX\<close> with the two
  hexadecimal digits of the byte. \<open>json_int_to_xdigit\<close> adds the digit value to \<open>a\<close>
  without taking 10 off, so the digits 10 to 15 come out as \<open>k\<close> to \<open>p\<close>, and
  \<open>write_unicode_escape\<close> shifts by 24, 16, 8 and 0 bits, so the high nibble of the byte
  is lost. The byte 0x0B is written as \<open>\u000l\<close>, 0x10 as \<open>\u0000\<close> and 0x1F as
  \<open>\u000p\<close>, on every platform; the reader of this codec takes neither \<open>l\<close> nor \<open>p\<close>
  for a hexadecimal digit.
\<close>

theorem encode_control_byte_escape:
  "fl_json_message_codec_encode_message P (Some (FL_STRING [0x0B]))
     = Inr ([0x22, 0x5C] @ lit ''u000l'' @ [0x22])
   \<and> fl_json_message_codec_encode_message P (Some (FL_STRING [0x10]))
     = Inr ([0x22, 0x5C] @ lit ''u0000'' @ [0x22])
   \<and> fl_json_message_codec_encode_message P (Some (FL_STRING [0x1F]))
     = Inr ([0x22, 0x5C] @ lit ''u000p'' @ [0x22])
   \<and> json_xdigit_to_int (of_nat (of_char CHR ''l'')) = - 1
   \<and> json_xdigit_to_int (of_nat (of_char CHR ''p'')) = - 1"
  by (simp add: fl_json_message_codec_encode_message_def write_char_def write_string_def
        c_str_def lit_def char_to_int_def char_to_gunichar_def write_unicode_escape_def
        json_int_to_xdigit_def json_xdigit_to_int_def)

text \<open>
  C4. Encoding fails exactly when the value contains a non-finite double (a float, or
  an element of a float list, at any depth of lists and maps, that \<open>isfinite\<close> rejects);
  the error is then INVALID\_NUMBER, and a value without one is encoded.
\<close>

theorem encode_error_iff_nonfinite:
  "((\<exists>e. fl_json_message_codec_encode_message P v = Inl e) \<longleftrightarrow> contains_nonfinite P v)
   \<and> (\<forall>e. fl_json_message_codec_encode_message P v = Inl e \<longrightarrow> e = INVALID_NUMBER)
   \<and> (\<not> contains_nonfinite P v \<longrightarrow> (\<exists>out. fl_json_message_codec_encode_message P v = Inr out))"
proof -
  have 1: "(\<exists>e. write_value P [] v = Inl e) \<longleftrightarrow> contains_nonfinite P v"
    and 2: "\<forall>e. write_value P [] v = Inl e \<longrightarrow> e = INVALID_NUMBER"
    using write_value_error(1)[of P "[]" v] by blast+
  have 3: "\<exists>out. write_value P [] v = Inr out" if "\<not> contains_nonfinite P v"
    using 1 that by (cases "write_value P [] v") auto
  from 1 2 3 show ?thesis
    unfolding fl_json_message_codec_encode_message_def by blast
qed

theorem encode_error_iff_nonfinite_witness:
  "contains_nonfinite test_platform (Some (FL_LIST [FL_INT 1, FL_FLOAT_LIST [D_ZERO, D_NAN]]))
   \<and> fl_json_message_codec_encode_message test_platform
        (Some (FL_LIST [FL_INT 1, FL_FLOAT_LIST [D_ZERO, D_NAN]])) = Inl INVALID_NUMBER
   \<and> \<not> contains_nonfinite test_platform (Some (FL_MAP [(FL_BOOL True, FL_FLOAT D_ZERO)]))
   \<and> (\<exists>out. fl_json_message_codec_encode_message test_platform
                (Some (FL_MAP [(FL_BOOL True, FL_FLOAT D_ZERO)])) = Inr out)"
proof -
  have a: "contains_nonfinite test_platform
             (Some (FL_LIST [FL_INT 1, FL_FLOAT_LIST [D_ZERO, D_NAN]]))"
    by (simp add: contains_nonfinite_def test_platform_def)
  have b: "\<not> contains_nonfinite test_platform (Some (FL_MAP [(FL_BOOL True, FL_FLOAT D_ZERO)]))"
    by (simp add: contains_nonfinite_def test_platform_def)
  from a encode_error_iff_nonfinite[of test_platform
      "Some (FL_LIST [FL_INT 1, FL_FLOAT_LIST [D_ZERO, D_NAN]])"]
  have c: "fl_json_message_codec_encode_message test_platform
        (Some (FL_LIST [FL_INT 1, FL_FLOAT_LIST [D_ZERO, D_NAN]])) = Inl INVALID_NUMBER"
    by blast
  from b encode_error_iff_nonfinite[of test_platform
      "Some (FL_MAP [(FL_BOOL True, FL_FLOAT D_ZERO)])"]
  have d: "\<exists>out. fl_json_message_codec_encode_message test_platform
                (Some (FL_MAP [(FL_BOOL True, FL_FLOAT D_ZERO)])) = Inr out"
    by blast
  from a b c d show ?thesis by blast
qed

end
